theory Spec2Isabelle
  imports Main "HOL-Library.Multiset"
begin

section \<open>Segments and Python errors\<close>

text \<open>
  A segment is the two-element Python list \<open>[l, h]\<close> of unbounded integers that
  \<open>Parser.insert\<close> builds; \<open>seg[0]\<close> is \<open>fst\<close> and \<open>seg[1]\<close> is \<open>snd\<close>.
  Every exception the two programs can raise is a value of \<open>error\<close>.
\<close>

type_synonym segment = "int \<times> int"

datatype error = RecursionError | ValueError | IndexError | AttributeError | TypeError

text \<open>Python's \<open>min\<close> and \<open>max\<close> over a generator: \<open>ValueError\<close> on an empty one.\<close>

fun py_min :: "int list \<Rightarrow> error + int" where
  "py_min [] = Inl ValueError"
| "py_min (x # xs) = Inr (fold min xs x)"

fun py_max :: "int list \<Rightarrow> error + int" where
  "py_max [] = Inl ValueError"
| "py_max (x # xs) = Inr (fold max xs x)"

section \<open>aaf-lab-var2.py: the bounding-box tree\<close>

text \<open>
  \<open>RTreeNode\<close> of aaf-lab-var2.py. The constructor of the datatype is the field
  \<open>is_leaf\<close>. A leaf keeps \<open>segment\<close>, its \<open>children\<close> (a list of segments) and
  \<open>bbox\<close>; an inner node has \<open>segment = None\<close>, its \<open>children\<close> (a list of nodes) and
  \<open>bbox\<close>, which is \<open>None\<close> until \<open>update_bbox\<close> has run. The fields \<open>left\<close> and
  \<open>right\<close> are \<open>None\<close> in every node of this variant and are left out.
\<close>

datatype RTreeNode_var2 =
    LeafNode (segment_var2: segment) (seg_children: "segment list") (bbox: "segment option")
  | InnerNode (node_children: "RTreeNode_var2 list") (bbox: "segment option")

fun is_leaf :: "RTreeNode_var2 \<Rightarrow> bool" where
  "is_leaf (LeafNode s cs b) = True"
| "is_leaf (InnerNode ns b) = False"

text \<open>\<open>child.bbox[0]\<close> and \<open>child.bbox[1]\<close>: subscripting \<open>None\<close> is a \<open>TypeError\<close>.\<close>

fun bbox_lows :: "RTreeNode_var2 list \<Rightarrow> error + int list" where
  "bbox_lows [] = Inr []"
| "bbox_lows (n # ns) =
     (case bbox n of
        None \<Rightarrow> Inl TypeError
      | Some b \<Rightarrow> (case bbox_lows ns of Inl e \<Rightarrow> Inl e | Inr ls \<Rightarrow> Inr (fst b # ls)))"

fun bbox_highs :: "RTreeNode_var2 list \<Rightarrow> error + int list" where
  "bbox_highs [] = Inr []"
| "bbox_highs (n # ns) =
     (case bbox n of
        None \<Rightarrow> Inl TypeError
      | Some b \<Rightarrow> (case bbox_highs ns of Inl e \<Rightarrow> Inl e | Inr hs \<Rightarrow> Inr (snd b # hs)))"

text \<open>
  \<open>RTreeNode.update_bbox\<close>: the new bbox is \<open>[min of the lows, max of the highs]\<close> of
  the children, which are segments in a leaf and nodes in an inner node. The minimum is
  evaluated before the maximum.
\<close>

fun update_bbox :: "RTreeNode_var2 \<Rightarrow> error + RTreeNode_var2" where
  "update_bbox (LeafNode s cs b) =
     (case py_min (map fst cs) of
        Inl e \<Rightarrow> Inl e
      | Inr lo \<Rightarrow> (case py_max (map snd cs) of
          Inl e \<Rightarrow> Inl e
        | Inr hi \<Rightarrow> Inr (LeafNode s cs (Some (lo, hi)))))"
| "update_bbox (InnerNode ns b) =
     (case bbox_lows ns of
        Inl e \<Rightarrow> Inl e
      | Inr ls \<Rightarrow> (case py_min ls of
          Inl e \<Rightarrow> Inl e
        | Inr lo \<Rightarrow> (case bbox_highs ns of
            Inl e \<Rightarrow> Inl e
          | Inr hs \<Rightarrow> (case py_max hs of
              Inl e \<Rightarrow> Inl e
            | Inr hi \<Rightarrow> Inr (InnerNode ns (Some (lo, hi)))))))"

text \<open>
  \<open>RTree._build_tree_recursive\<close>. The argument is a Python list that the function
  sorts in place (\<open>segments.sort(key=lambda x: x[0])\<close>, a stable sort), so the model
  returns the final contents of that list next to the result. The two halves are slices,
  hence fresh lists: what the recursive calls do to them is not seen by the caller.
  On the empty list the source recurses on two empty slices for ever, which Python ends
  with a \<open>RecursionError\<close>; that is the second branch.
\<close>

function build_tree_recursive :: "segment list \<Rightarrow> segment list \<times> (error + RTreeNode_var2)" where
  "build_tree_recursive segments =
     (if length segments = 1 then
        (segments, update_bbox (LeafNode (segments ! 0) segments (Some (segments ! 0))))
      else if segments = [] then (segments, Inl RecursionError)
      else
        (let sorted_segments = sort_key fst segments;
             mid = length sorted_segments div 2;
             left_segments = take mid sorted_segments;
             right_segments = drop mid sorted_segments
         in case snd (build_tree_recursive left_segments) of
              Inl e \<Rightarrow> (sorted_segments, Inl e)
            | Inr l \<Rightarrow>
               (case snd (build_tree_recursive right_segments) of
                  Inl e \<Rightarrow> (sorted_segments, Inl e)
                | Inr r \<Rightarrow> (sorted_segments, update_bbox (InnerNode [l, r] None)))))"
  by pat_completeness auto
termination
proof (relation "measure length")
  show "wf (measure length)" by simp
next
  fix segments :: "segment list" and x xa xb xc
  assume "length segments \<noteq> 1" "segments \<noteq> []" "x = sort_key fst segments"
    "xa = length x div 2" "xb = take xa x"
  then show "(xb, segments) \<in> measure length"
    by (cases segments) auto
next
  fix segments :: "segment list" and x xa xb xc x2
  assume "length segments \<noteq> 1" "segments \<noteq> []" "x = sort_key fst segments"
    "xa = length x div 2" "xc = drop xa x"
  then show "(xc, segments) \<in> measure length"
    by (cases segments) (auto simp: Suc_lessI)
qed

declare build_tree_recursive.simps [simp del]

text \<open>
  \<open>RTree\<close> of aaf-lab-var2.py: \<open>root\<close> (\<open>None\<close> until the first insertion) and the
  list \<open>segments\<close>.
\<close>

record RTree_var2 =
  root_var2 :: "RTreeNode_var2 option"
  segments_var2 :: "segment list"

definition RTree_init_var2 :: RTree_var2 where
  "RTree_init_var2 = \<lparr>root_var2 = None, segments_var2 = []\<rparr>"

text \<open>
  \<open>RTree.insert\<close> of aaf-lab-var2.py: append, then build from \<open>self.segments\<close>
  itself. The list passed is the store, so what the build leaves in its argument is the
  new store. If the build raised, the root would keep its old value.
\<close>

definition RTree_insert_var2 :: "RTree_var2 \<Rightarrow> segment \<Rightarrow> (error + unit) \<times> RTree_var2" where
  "RTree_insert_var2 t seg =
     (let appended = segments_var2 t @ [seg];
          (store, res) = build_tree_recursive appended
      in case res of
           Inl e \<Rightarrow> (Inl e, t\<lparr>segments_var2 := store\<rparr>)
         | Inr node \<Rightarrow> (Inr (), \<lparr>root_var2 = Some node, segments_var2 = store\<rparr>))"

text \<open>A sequence of \<open>insert\<close> calls on one index; an exception ends it.\<close>

fun insert_all_var2 :: "RTree_var2 \<Rightarrow> segment list \<Rightarrow> (error + unit) \<times> RTree_var2" where
  "insert_all_var2 t [] = (Inr (), t)"
| "insert_all_var2 t (s # ss) =
     (case RTree_insert_var2 t s of
        (Inl e, t') \<Rightarrow> (Inl e, t')
      | (Inr u, t') \<Rightarrow> insert_all_var2 t' ss)"

text \<open>
  The bounding-box invariant of a tree: a leaf wraps one segment and its bbox is that
  segment; an inner node has two children and its bbox is the minimum of their lower
  bounds and the maximum of their upper bounds, and so on below.
\<close>

fun bbox_consistent :: "RTreeNode_var2 \<Rightarrow> bool" where
  "bbox_consistent (LeafNode s cs b) = (cs = [s] \<and> b = Some s)"
| "bbox_consistent (InnerNode [l, r] b) =
     (case (bbox l, bbox r) of
        (Some bl, Some br) \<Rightarrow>
          b = Some (min (fst bl) (fst br), max (snd bl) (snd br))
          \<and> bbox_consistent l \<and> bbox_consistent r
      | _ \<Rightarrow> False)"
| "bbox_consistent (InnerNode ns b) = False"

section \<open>Queries, the same text in both files\<close>

text \<open>
  \<open>RTree.contains\<close>: the \<open>for\<close> loop over \<open>self.segments\<close> with its early
  \<open>return True\<close>.
\<close>

fun contains_loop :: "segment list \<Rightarrow> segment \<Rightarrow> bool" where
  "contains_loop [] q = False"
| "contains_loop ((l, h) # rest) (L, H) =
     (if l \<le> L \<and> H \<le> h then True else contains_loop rest (L, H))"

text \<open>
  \<open>RTree.search(query_type, params)\<close>. \<open>params\<close> is \<open>None\<close>, a list \<open>[L, H]\<close> or an
  integer. Unpacking \<open>L, H = params\<close> from an integer or \<open>None\<close> is a \<open>TypeError\<close>;
  under \<open>LEFT_OF\<close> a parameter that is not an integer is compared with \<open>seg[1]\<close>
  for the first stored segment, a \<open>TypeError\<close> too, and with an empty store nothing is
  compared. An unknown \<open>query_type\<close> leaves \<open>results\<close> empty.
\<close>

datatype params = NoParams | SegParams segment | IntParams int

definition search_segments ::
  "segment list \<Rightarrow> string option \<Rightarrow> params \<Rightarrow> error + segment list" where
  "search_segments segs query_type ps =
     (case query_type of
        None \<Rightarrow> Inr segs
      | Some q \<Rightarrow>
          if q = ''CONTAINS'' then
            (case ps of
               SegParams (L, H) \<Rightarrow> Inr [seg \<leftarrow> segs. fst seg \<le> L \<and> H \<le> snd seg]
             | _ \<Rightarrow> Inl TypeError)
          else if q = ''INTERSECTS'' then
            (case ps of
               SegParams (L, H) \<Rightarrow> Inr [seg \<leftarrow> segs. \<not> (snd seg < L \<or> H < fst seg)]
             | _ \<Rightarrow> Inl TypeError)
          else if q = ''LEFT_OF'' then
            (case ps of
               IntParams x \<Rightarrow> Inr [seg \<leftarrow> segs. snd seg \<le> x]
             | _ \<Rightarrow> if segs = [] then Inr [] else Inl TypeError)
          else Inr [])"

definition RTree_contains_var2 :: "RTree_var2 \<Rightarrow> segment \<Rightarrow> bool" where
  "RTree_contains_var2 t q = contains_loop (segments_var2 t) q"

definition RTree_search_var2 ::
  "RTree_var2 \<Rightarrow> string option \<Rightarrow> params \<Rightarrow> error + segment list" where
  "RTree_search_var2 t query_type ps = search_segments (segments_var2 t) query_type ps"

section \<open>aaf-lab.py: the index with a binary search tree\<close>

text \<open>
  \<open>RTreeNode\<close> of aaf-lab.py: a segment and the two optional children. Python's
  recursion limit is not modelled: \<open>_insert_node\<close> and \<open>print_tree\<close> are taken to run
  on trees shallower than the limit.
\<close>

datatype RTreeNode =
  RTreeNode (segment: segment) (left: "RTreeNode option") (right: "RTreeNode option")

text \<open>\<open>RTree._insert_node\<close>: the node is changed in place; the model returns it.\<close>

fun insert_node :: "RTreeNode \<Rightarrow> segment \<Rightarrow> RTreeNode" where
  "insert_node (RTreeNode s l r) seg =
     (if fst seg < fst s then
        (case l of
           None \<Rightarrow> RTreeNode s (Some (RTreeNode seg None None)) r
         | Some ln \<Rightarrow> RTreeNode s (Some (insert_node ln seg)) r)
      else
        (case r of
           None \<Rightarrow> RTreeNode s l (Some (RTreeNode seg None None))
         | Some rn \<Rightarrow> RTreeNode s l (Some (insert_node rn seg))))"

record RTree =
  root :: "RTreeNode option"
  segments :: "segment list"

definition RTree_init :: RTree where
  "RTree_init = \<lparr>root = None, segments = []\<rparr>"

text \<open>\<open>RTree.insert\<close> of aaf-lab.py: append, then hang the segment into the tree.\<close>

definition RTree_insert :: "RTree \<Rightarrow> segment \<Rightarrow> RTree" where
  "RTree_insert t seg =
     (let t1 = t\<lparr>segments := segments t @ [seg]\<rparr>
      in case root t1 of
           None \<Rightarrow> t1\<lparr>root := Some (RTreeNode seg None None)\<rparr>
         | Some n \<Rightarrow> t1\<lparr>root := Some (insert_node n seg)\<rparr>)"

fun insert_all :: "RTree \<Rightarrow> segment list \<Rightarrow> RTree" where
  "insert_all t [] = t"
| "insert_all t (s # ss) = insert_all (RTree_insert t s) ss"

definition RTree_contains :: "RTree \<Rightarrow> segment \<Rightarrow> bool" where
  "RTree_contains t q = contains_loop (segments t) q"

definition RTree_search :: "RTree \<Rightarrow> string option \<Rightarrow> params \<Rightarrow> error + segment list" where
  "RTree_search t query_type ps = search_segments (segments t) query_type ps"

section \<open>Strings: \<open>str\<close>, \<open>int\<close>, \<open>upper\<close> and the tokenizer\<close>

text \<open>
  A Python string is a sequence of code points; a \<open>char\<close> is the code point of the
  same number, from 0 to 255 (ASCII and the Latin-1 supplement). Code points above 255
  have no counterpart in \<open>string\<close>. The character classes below are Python's on this
  range: \<open>\w\<close> of a \<open>str\<close> pattern is the underscore and every alphanumeric
  character, which beyond ASCII are the letters, the superscript digits and the three
  fractions of Latin-1; \<open>int\<close> reads the ASCII digits only and drops the whitespace
  characters listed in \<open>is_space\<close>.
\<close>

definition is_digit :: "char \<Rightarrow> bool" where
  "is_digit c = (c \<in> set ''0123456789'')"

definition is_word :: "char \<Rightarrow> bool" where
  "is_word c =
     (c \<in> set ''abcdefghijklmnopqrstuvwxyzABCDEFGHIJKLMNOPQRSTUVWXYZ0123456789_''
      \<or> c \<in> set [CHR 0xAA, CHR 0xB2, CHR 0xB3, CHR 0xB5, CHR 0xB9, CHR 0xBA,
                    CHR 0xBC, CHR 0xBD, CHR 0xBE]
      \<or> (0xC0 \<le> (of_char c :: nat) \<and> c \<noteq> CHR 0xD7 \<and> c \<noteq> CHR 0xF7))"

definition is_space :: "char \<Rightarrow> bool" where
  "is_space c = (c \<in> set [CHR 0x09, CHR 0x0A, CHR 0x0B, CHR 0x0C, CHR 0x0D, CHR '' '',
                            CHR 0x85, CHR 0xA0])"

definition digit_value :: "char \<Rightarrow> int" where
  "digit_value c = of_char c - 48"

text \<open>
  \<open>str.upper\<close>: the ASCII and the Latin-1 small letters go to their capitals and
  the sharp s (0xDF) to \<open>SS\<close>. The capitals of the micro sign (0xB5) and of y with
  diaeresis (0xFF) are the code points 0x39C and 0x178, above 255; the two characters
  are left as they are, which no use of \<open>upper\<close> in the parser can tell apart: the
  result is only compared with ASCII keywords.
\<close>

definition upper_char :: "char \<Rightarrow> string" where
  "upper_char c =
     (if c \<in> set ''abcdefghijklmnopqrstuvwxyz''
         \<or> (0xE0 \<le> (of_char c :: nat) \<and> c \<noteq> CHR 0xF7 \<and> c \<noteq> CHR 0xFF)
      then [char_of (of_char c - (32::nat))]
      else if c = CHR 0xDF then ''SS''
      else [c])"

definition upper :: "string \<Rightarrow> string" where
  "upper s = concat (map upper_char s)"

text \<open>
  \<open>int(s)\<close> for a string, base ten: surrounding whitespace is dropped, one sign is
  allowed, then come decimal digits, where single underscores may stand between two
  digits. Anything else is a \<open>ValueError\<close>. (The limit on the number of digits that
  recent interpreters put on the conversion is not modelled.)
\<close>

fun digits_value :: "string \<Rightarrow> int \<Rightarrow> error + int" where
  "digits_value [] acc = Inr acc"
| "digits_value (c # cs) acc =
     (if is_digit c then digits_value cs (10 * acc + digit_value c)
      else if c = CHR ''_'' \<and> cs \<noteq> [] \<and> is_digit (hd cs) then digits_value cs acc
      else Inl ValueError)"

definition unsigned_value :: "string \<Rightarrow> error + int" where
  "unsigned_value s =
     (if s \<noteq> [] \<and> is_digit (hd s) then digits_value s 0 else Inl ValueError)"

definition strip :: "string \<Rightarrow> string" where
  "strip s = rev (dropWhile is_space (rev (dropWhile is_space s)))"

definition py_int :: "string \<Rightarrow> error + int" where
  "py_int s =
     (case strip s of
        [] \<Rightarrow> Inl ValueError
      | c # cs \<Rightarrow>
          if c = CHR ''-'' then
            (case unsigned_value cs of Inl e \<Rightarrow> Inl e | Inr n \<Rightarrow> Inr (- n))
          else if c = CHR ''+'' then unsigned_value cs
          else unsigned_value (c # cs))"

text \<open>\<open>str(n)\<close> for an integer, and \<open>str\<close> of a segment and of a list of segments.\<close>

function nat_digits :: "nat \<Rightarrow> string" where
  "nat_digits n =
     (if n < 10 then [char_of (48 + n)]
      else nat_digits (n div 10) @ [char_of (48 + n mod 10)])"
  by pat_completeness auto
termination
  by (relation "measure id") auto

declare nat_digits.simps [simp del]

definition str_int :: "int \<Rightarrow> string" where
  "str_int i = (if i < 0 then CHR ''-'' # nat_digits (nat (- i)) else nat_digits (nat i))"

definition str_segment :: "segment \<Rightarrow> string" where
  "str_segment seg = ''['' @ str_int (fst seg) @ '', '' @ str_int (snd seg) @ '']''"

fun join :: "string \<Rightarrow> string list \<Rightarrow> string" where
  "join sep [] = []"
| "join sep [x] = x"
| "join sep (x # y # ys) = x @ sep @ join sep (y # ys)"

definition str_segments :: "segment list \<Rightarrow> string" where
  "str_segments segs = ''['' @ join '', '' (map str_segment segs) @ '']''"

definition str_bool :: "bool \<Rightarrow> string" where
  "str_bool b = (if b then ''True'' else ''False'')"

text \<open>
  \<open>Lexer.tokenize\<close>: \<open>re.findall\<close> with the pattern \<open>\w+|\[|\]|\d+|,\<close>. The scan
  goes from left to right; at a word character the first alternative takes the longest
  run of word characters (so the alternative \<open>\d+\<close> never gets its turn), a bracket or a
  comma is a token of its own, and at any other character no alternative matches and
  the scan moves on by one.
\<close>

function tokenize :: "string \<Rightarrow> string list" where
  "tokenize [] = []"
| "tokenize (c # cs) =
     (if is_word c then
        (c # takeWhile is_word cs) # tokenize (dropWhile is_word cs)
      else if c = CHR ''['' \<or> c = CHR '']'' \<or> c = CHR '','' then [c] # tokenize cs
      else tokenize cs)"
  by pat_completeness auto
termination
  by (relation "measure length") (auto simp: length_dropWhile_le less_Suc_eq_le)

section \<open>Printing the trees\<close>

text \<open>
  \<open>RTree.print_tree\<close> of aaf-lab.py. Standard output is a list of lines. With
  \<open>node = None\<close> and \<open>self.root = None\<close> the first test, \<open>node.right\<close>, reads an
  attribute of \<open>None\<close>: \<open>AttributeError\<close>, before anything is printed. The recursive
  calls are made on nodes only.
\<close>

fun print_node :: "RTreeNode \<Rightarrow> nat \<Rightarrow> string list" where
  "print_node (RTreeNode s l r) level =
     (case r of None \<Rightarrow> [] | Some rn \<Rightarrow> print_node rn (level + 1))
     @ [concat (replicate level ''    '') @ str_segment s]
     @ (case l of None \<Rightarrow> [] | Some ln \<Rightarrow> print_node ln (level + 1))"

definition RTree_print_tree :: "RTree \<Rightarrow> string list \<times> (error + unit)" where
  "RTree_print_tree t =
     (case root t of
        None \<Rightarrow> ([], Inl AttributeError)
      | Some n \<Rightarrow> (print_node n 0, Inr ()))"

text \<open>
  \<open>RTree.print_tree\<close> of aaf-lab-var2.py: the lines printed and, where
  \<open>node.children[0]\<close> or \<open>node.children[1]\<close> does not exist, the \<open>IndexError\<close> after
  them. An empty tree prints \<open>Tree is empty\<close>.
\<close>

definition str_bbox :: "segment option \<Rightarrow> string" where
  "str_bbox b = (case b of None \<Rightarrow> ''None'' | Some seg \<Rightarrow> str_segment seg)"

fun print_node_var2 :: "RTreeNode_var2 \<Rightarrow> nat \<Rightarrow> string \<Rightarrow> string list \<times> (error + unit)" where
  "print_node_var2 (LeafNode s cs b) level position =
     ([concat (replicate level ''  '') @ position @ '': '' @ str_bbox b], Inr ())"
| "print_node_var2 (InnerNode [] b) level position =
     ([concat (replicate level ''  '') @ position @ '':  '' @ str_bbox b], Inl IndexError)"
| "print_node_var2 (InnerNode [l] b) level position =
     (case print_node_var2 l (level + 1) ''Left Child'' of
        (ls, Inl e) \<Rightarrow>
          ((concat (replicate level ''  '') @ position @ '':  '' @ str_bbox b) # ls, Inl e)
      | (ls, Inr u) \<Rightarrow>
          ((concat (replicate level ''  '') @ position @ '':  '' @ str_bbox b) # ls,
           Inl IndexError))"
| "print_node_var2 (InnerNode (l # r # rest) b) level position =
     (case print_node_var2 l (level + 1) ''Left Child'' of
        (ls, Inl e) \<Rightarrow>
          ((concat (replicate level ''  '') @ position @ '':  '' @ str_bbox b) # ls, Inl e)
      | (ls, Inr u) \<Rightarrow>
          (case print_node_var2 r (level + 1) ''Right Child'' of
             (rs, res) \<Rightarrow>
               ((concat (replicate level ''  '') @ position @ '':  '' @ str_bbox b) # ls @ rs,
                res)))"

definition RTree_print_tree_var2 :: "RTree_var2 \<Rightarrow> string list \<times> (error + unit)" where
  "RTree_print_tree_var2 t =
     (case root_var2 t of
        None \<Rightarrow> ([''Tree is empty''], Inr ())
      | Some n \<Rightarrow> print_node_var2 n 0 ''Root'')"

section \<open>The command dispatcher\<close>

text \<open>
  The class \<open>Parser\<close> has the same text in both files and differs only in the
  \<open>RTree\<close> class it instantiates, so it is written once over the operations of that
  class. The state is the dictionary \<open>trees\<close> of the parser together with the lines
  written to standard output.
\<close>

record 't RTree_class =
  tree_new :: 't
  tree_insert :: "'t \<Rightarrow> segment \<Rightarrow> (error + unit) \<times> 't"
  tree_print_tree :: "'t \<Rightarrow> string list \<times> (error + unit)"
  tree_contains :: "'t \<Rightarrow> segment \<Rightarrow> bool"
  tree_search :: "'t \<Rightarrow> string option \<Rightarrow> params \<Rightarrow> error + segment list"

definition aaf_lab :: "RTree RTree_class" where
  "aaf_lab =
     \<lparr>tree_new = RTree_init,
      tree_insert = (\<lambda>t seg. (Inr (), RTree_insert t seg)),
      tree_print_tree = RTree_print_tree,
      tree_contains = RTree_contains,
      tree_search = RTree_search\<rparr>"

definition aaf_lab_var2 :: "RTree_var2 RTree_class" where
  "aaf_lab_var2 =
     \<lparr>tree_new = RTree_init_var2,
      tree_insert = RTree_insert_var2,
      tree_print_tree = RTree_print_tree_var2,
      tree_contains = RTree_contains_var2,
      tree_search = RTree_search_var2\<rparr>"

record 't Parser =
  trees :: "string \<rightharpoonup> 't"
  stdout :: "string list"

definition Parser_init :: "'t Parser" where
  "Parser_init = \<lparr>trees = Map.empty, stdout = []\<rparr>"

definition COMMANDS :: "string list" where
  "COMMANDS = [''CREATE'', ''INSERT'', ''PRINT_TREE'', ''CONTAINS'', ''SEARCH'']"

text \<open>\<open>tokens[i]\<close>: an \<open>IndexError\<close> beyond the end.\<close>

definition token_at :: "string list \<Rightarrow> nat \<Rightarrow> error + string" where
  "token_at tokens i = (if i < length tokens then Inr (tokens ! i) else Inl IndexError)"

text \<open>\<open>int(tokens[i])\<close>: the subscript is evaluated first.\<close>

definition int_at :: "string list \<Rightarrow> nat \<Rightarrow> error + int" where
  "int_at tokens i = (case token_at tokens i of Inl e \<Rightarrow> Inl e | Inr tok \<Rightarrow> py_int tok)"

text \<open>
  \<open>except (ValueError, IndexError): return msg\<close> around a block: these two exceptions
  become the message, any other one leaves the method.
\<close>

definition except_value_index ::
  "(error + string) \<times> 's \<Rightarrow> string \<Rightarrow> (error + string) \<times> 's" where
  "except_value_index r msg =
     (case r of
        (Inl e, st) \<Rightarrow> if e = ValueError \<or> e = IndexError then (Inr msg, st) else (Inl e, st)
      | (Inr out, st) \<Rightarrow> (Inr out, st))"

definition Parser_create ::
  "'t RTree_class \<Rightarrow> 't Parser \<Rightarrow> string list \<Rightarrow> (error + string) \<times> 't Parser" where
  "Parser_create cls st tokens =
     (if length tokens < 2 then (Inr ''Invalid CREATE command: missing set name'', st)
      else
        (let set_name = tokens ! 1 in
         if trees st set_name \<noteq> None then
           (Inr (''Set '' @ set_name @ '' already exists''), st)
         else
           (Inr (''Set '' @ set_name @ '' has been created''),
            st\<lparr>trees := (trees st)(set_name \<mapsto> tree_new cls)\<rparr>)))"

definition Parser_insert ::
  "'t RTree_class \<Rightarrow> 't Parser \<Rightarrow> string list \<Rightarrow> (error + string) \<times> 't Parser" where
  "Parser_insert cls st tokens =
     (if length tokens < 4 then (Inr ''Invalid INSERT command: missing parameters'', st)
      else
        (let set_name = tokens ! 1 in
         case trees st set_name of
           None \<Rightarrow> (Inr (''Set '' @ set_name @ '' does not exist''), st)
         | Some tree \<Rightarrow>
             except_value_index
               (case int_at tokens 3 of
                  Inl e \<Rightarrow> (Inl e, st)
                | Inr l \<Rightarrow>
                   (case int_at tokens 5 of
                      Inl e \<Rightarrow> (Inl e, st)
                    | Inr h \<Rightarrow>
                       if l > h then
                         (Inr ''Invalid INSERT command: lower bound greater than upper bound'', st)
                       else
                         (case tree_insert cls tree (l, h) of
                            (Inl e, tree') \<Rightarrow>
                              (Inl e, st\<lparr>trees := (trees st)(set_name \<mapsto> tree')\<rparr>)
                          | (Inr u, tree') \<Rightarrow>
                              (Inr (''Range ['' @ str_int l @ '', '' @ str_int h
                                    @ ''] has been added to '' @ set_name),
                               st\<lparr>trees := (trees st)(set_name \<mapsto> tree')\<rparr>))))
               ''Invalid INSERT command: invalid segment format''))"

definition Parser_print_tree ::
  "'t RTree_class \<Rightarrow> 't Parser \<Rightarrow> string list \<Rightarrow> (error + string) \<times> 't Parser" where
  "Parser_print_tree cls st tokens =
     (if length tokens < 2 then (Inr ''Invalid PRINT_TREE command: missing set name'', st)
      else
        (let set_name = tokens ! 1 in
         case trees st set_name of
           None \<Rightarrow> (Inr (''Set '' @ set_name @ '' does not exist''), st)
         | Some tree \<Rightarrow>
             (case tree_print_tree cls tree of
                (printed, Inl e) \<Rightarrow> (Inl e, st\<lparr>stdout := stdout st @ printed\<rparr>)
              | (printed, Inr u) \<Rightarrow>
                  (Inr (''Tree for '' @ set_name @ '' printed above''),
                   st\<lparr>stdout := stdout st @ printed\<rparr>))))"

definition Parser_contains ::
  "'t RTree_class \<Rightarrow> 't Parser \<Rightarrow> string list \<Rightarrow> (error + string) \<times> 't Parser" where
  "Parser_contains cls st tokens =
     (if length tokens < 4 then (Inr ''Invalid CONTAINS command: missing parameters'', st)
      else
        (let set_name = tokens ! 1 in
         case trees st set_name of
           None \<Rightarrow> (Inr (''Set '' @ set_name @ '' does not exist''), st)
         | Some tree \<Rightarrow>
             except_value_index
               (case int_at tokens 3 of
                  Inl e \<Rightarrow> (Inl e, st)
                | Inr l \<Rightarrow>
                   (case int_at tokens 5 of
                      Inl e \<Rightarrow> (Inl e, st)
                    | Inr h \<Rightarrow> (Inr (str_bool (tree_contains cls tree (l, h))), st)))
               ''Invalid CONTAINS command: invalid segment format''))"

definition Parser_search ::
  "'t RTree_class \<Rightarrow> 't Parser \<Rightarrow> string list \<Rightarrow> (error + string) \<times> 't Parser" where
  "Parser_search cls st tokens =
     (if length tokens < 2 then (Inr ''Invalid SEARCH command: missing set name'', st)
      else
        (let set_name = tokens ! 1 in
         case trees st set_name of
           None \<Rightarrow> (Inr (''Set '' @ set_name @ '' does not exist''), st)
         | Some tree \<Rightarrow>
             if length tokens = 2 then
               (case tree_search cls tree None NoParams of
                  Inl e \<Rightarrow> (Inl e, st)
                | Inr results \<Rightarrow> (Inr (''Search results: '' @ str_segments results), st))
             else if length tokens < 4 \<or> upper (tokens ! 2) \<noteq> ''WHERE'' then
               (Inr ''Invalid SEARCH command: invalid WHERE clause'', st)
             else
               (let query_type = upper (tokens ! 3) in
                except_value_index
                  (if query_type = ''CONTAINS'' \<or> query_type = ''INTERSECTS'' then
                     (case int_at tokens 5 of
                        Inl e \<Rightarrow> (Inl e, st)
                      | Inr l \<Rightarrow>
                         (case int_at tokens 7 of
                            Inl e \<Rightarrow> (Inl e, st)
                          | Inr h \<Rightarrow>
                             (case tree_search cls tree (Some query_type) (SegParams (l, h)) of
                                Inl e \<Rightarrow> (Inl e, st)
                              | Inr results \<Rightarrow>
                                  (Inr (''Search results: '' @ str_segments results), st))))
                   else if query_type = ''LEFT_OF'' then
                     (case int_at tokens 4 of
                        Inl e \<Rightarrow> (Inl e, st)
                      | Inr x \<Rightarrow>
                         (case tree_search cls tree (Some query_type) (IntParams x) of
                            Inl e \<Rightarrow> (Inl e, st)
                          | Inr results \<Rightarrow>
                              (Inr (''Search results: '' @ str_segments results), st)))
                   else (Inr ''Invalid SEARCH command: unknown search type'', st))
                  (''Invalid SEARCH command: invalid '' @ query_type @ '' parameters''))))"

text \<open>
  \<open>Parser.parse\<close>. Inside the branch for a known command the chain of tests ends
  with \<open>command_type == 'SEARCH'\<close>, which membership in \<open>COMMANDS\<close> makes the only
  case left; it is the last \<open>else\<close> here.
\<close>

definition parse ::
  "'t RTree_class \<Rightarrow> 't Parser \<Rightarrow> string \<Rightarrow> (error + string) \<times> 't Parser" where
  "parse cls st command =
     (let tokens = tokenize command in
      if tokens = [] then (Inr ''Invalid command'', st)
      else
        (let command_type = upper (tokens ! 0) in
         if command_type \<in> set COMMANDS then
           (if command_type = ''CREATE'' then Parser_create cls st tokens
            else if command_type = ''INSERT'' then Parser_insert cls st tokens
            else if command_type = ''PRINT_TREE'' then Parser_print_tree cls st tokens
            else if command_type = ''CONTAINS'' then Parser_contains cls st tokens
            else Parser_search cls st tokens)
         else (Inr ''Unknown command'', st)))"

text \<open>A session: commands given one after the other, until one raises.\<close>

fun parse_all ::
  "'t RTree_class \<Rightarrow> 't Parser \<Rightarrow> string list \<Rightarrow> (error + string list) \<times> 't Parser" where
  "parse_all cls st [] = (Inr [], st)"
| "parse_all cls st (c # cs) =
     (case parse cls st c of
        (Inl e, st') \<Rightarrow> (Inl e, st')
      | (Inr out, st') \<Rightarrow>
          (case parse_all cls st' cs of
             (Inl e, st'') \<Rightarrow> (Inl e, st'')
           | (Inr outs, st'') \<Rightarrow> (Inr (out # outs), st'')))"

text \<open>
  The condition under which the dispatcher of aaf-lab-var2.py is shown below never to
  raise: every tree that has a root satisfies the bounding-box invariant.
\<close>

definition roots_consistent :: "RTree_var2 Parser \<Rightarrow> bool" where
  "roots_consistent st =
     (\<forall>name t n. trees st name = Some t \<longrightarrow> root_var2 t = Some n \<longrightarrow> bbox_consistent n)"

section \<open>Properties of the build\<close>

lemma update_bbox_pair:
  "bbox l = Some bl \<Longrightarrow> bbox r = Some br \<Longrightarrow>
   update_bbox (InnerNode [l, r] b) =
     Inr (InnerNode [l, r] (Some (min (fst bl) (fst br), max (snd bl) (snd br))))"
  by (simp add: min.commute max.commute)

lemma build_store: "fst (build_tree_recursive segs) = sort_key fst segs"
proof (cases segs)
  case Nil
  then show ?thesis by (simp add: build_tree_recursive.simps)
next
  case (Cons a rest)
  show ?thesis
  proof (cases rest)
    case Nil
    with Cons show ?thesis by (simp add: build_tree_recursive.simps)
  next
    case (Cons b rest')
    with \<open>segs = a # rest\<close> show ?thesis
      by (subst build_tree_recursive.simps) (simp add: Let_def split: sum.splits)
  qed
qed

lemma build_single:
  "snd (build_tree_recursive [s]) = Inr (LeafNode s [s] (Some s))"
  by (simp add: build_tree_recursive.simps)

lemma build_split:
  assumes "2 \<le> length segs"
  shows "snd (build_tree_recursive segs) =
     (case snd (build_tree_recursive (take (length segs div 2) (sort_key fst segs))) of
        Inl e \<Rightarrow> Inl e
      | Inr l \<Rightarrow>
         (case snd (build_tree_recursive (drop (length segs div 2) (sort_key fst segs))) of
            Inl e \<Rightarrow> Inl e
          | Inr r \<Rightarrow> update_bbox (InnerNode [l, r] None)))"
proof -
  from assms have "length segs \<noteq> 1" "segs \<noteq> []" by auto
  then show ?thesis
    by (subst build_tree_recursive.simps) (simp add: Let_def split: sum.splits)
qed

lemma build_ok:
  "segs \<noteq> [] \<Longrightarrow>
   \<exists>n b. snd (build_tree_recursive segs) = Inr n \<and> bbox n = Some b \<and> bbox_consistent n"
proof (induction "length segs" arbitrary: segs rule: less_induct)
  case less
  show ?case
  proof (cases "length segs = 1")
    case True
    then obtain s where "segs = [s]" by (cases segs) auto
    then show ?thesis by (simp add: build_single)
  next
    case False
    with less.prems have len: "2 \<le> length segs"
      by (cases segs) (auto simp: Suc_le_eq)
    let ?srt = "sort_key fst segs"
    let ?mid = "length segs div 2"
    have "0 < length (take ?mid ?srt)" "length (take ?mid ?srt) < length segs"
      using len by auto
    then have "take ?mid ?srt \<noteq> []" "length (take ?mid ?srt) < length segs"
      by (simp_all del: length_take)
    from less.hyps [OF this(2) this(1)] obtain l bl where
      l: "snd (build_tree_recursive (take ?mid ?srt)) = Inr l" "bbox l = Some bl" "bbox_consistent l"
      by blast
    have "0 < length (drop ?mid ?srt)" "length (drop ?mid ?srt) < length segs"
      using len by auto
    then have "drop ?mid ?srt \<noteq> []" "length (drop ?mid ?srt) < length segs"
      by (simp_all del: length_drop)
    from less.hyps [OF this(2) this(1)] obtain r br where
      r: "snd (build_tree_recursive (drop ?mid ?srt)) = Inr r" "bbox r = Some br" "bbox_consistent r"
      by blast
    from l r show ?thesis
      by (simp add: build_split [OF len] update_bbox_pair del: update_bbox.simps)
  qed
qed

section \<open>Properties of the two indexes\<close>

lemma build_sorted_again:
  "build_tree_recursive (sort_key fst segs) = build_tree_recursive segs"
proof (cases "2 \<le> length segs")
  case False
  then have "segs = [] \<or> (\<exists>s. segs = [s])"
    by (cases segs) (auto simp: not_le)
  then show ?thesis by auto
next
  case True
  have s: "sort_key fst (sort_key fst segs) = sort_key fst segs"
    by (simp add: sort_key_id_if_sorted)
  from True have len: "2 \<le> length (sort_key fst segs)" by simp
  have "fst (build_tree_recursive (sort_key fst segs)) = fst (build_tree_recursive segs)"
    by (simp add: build_store s)
  moreover have "snd (build_tree_recursive (sort_key fst segs)) = snd (build_tree_recursive segs)"
    by (simp add: build_split [OF len] build_split [OF True] s cong: sum.case_cong)
  ultimately show ?thesis by (rule prod_eqI)
qed

lemma RTree_insert_var2_result:
  "\<exists>n. RTree_insert_var2 t seg =
          (Inr (), \<lparr>root_var2 = Some n,
                    segments_var2 = sort_key fst (segments_var2 t @ [seg])\<rparr>)
       \<and> bbox_consistent n"
proof -
  have "segments_var2 t @ [seg] \<noteq> []" by simp
  from build_ok [OF this] obtain n where
    n: "snd (build_tree_recursive (segments_var2 t @ [seg])) = Inr n" "bbox_consistent n"
    by blast
  have "build_tree_recursive (segments_var2 t @ [seg]) =
          (sort_key fst (segments_var2 t @ [seg]), Inr n)"
    using n(1) build_store [of "segments_var2 t @ [seg]"]
    by (cases "build_tree_recursive (segments_var2 t @ [seg])") simp
  then have "RTree_insert_var2 t seg =
          (Inr (), \<lparr>root_var2 = Some n,
                    segments_var2 = sort_key fst (segments_var2 t @ [seg])\<rparr>)"
    by (simp add: RTree_insert_var2_def)
  with n(2) show ?thesis by blast
qed

lemma sort_key_append_sorted:
  "sort_key f (sort_key f xs @ ys) = sort_key f (xs @ ys)"
proof (rule properties_for_sort_key [symmetric])
  show "mset (sort_key f (sort_key f xs @ ys)) = mset (xs @ ys)" by simp
next
  fix k
  have "filter (\<lambda>x. f k = f x) (sort_key f (sort_key f xs @ ys))
        = filter (\<lambda>x. f x = f k) (sort_key f (sort_key f xs @ ys))"
    by (rule filter_cong) auto
  also have "\<dots> = filter (\<lambda>x. f x = f k) (sort_key f xs @ ys)"
    by (rule sort_key_stable)
  also have "\<dots> = filter (\<lambda>x. f x = f k) xs @ filter (\<lambda>x. f x = f k) ys"
    by (simp add: sort_key_stable)
  also have "\<dots> = filter (\<lambda>x. f k = f x) (xs @ ys)"
    by (simp add: eq_commute [of "f k"])
  finally show "filter (\<lambda>x. f k = f x) (sort_key f (sort_key f xs @ ys))
        = filter (\<lambda>x. f k = f x) (xs @ ys)" .
next
  show "sorted (map f (sort_key f (sort_key f xs @ ys)))" by simp
qed

lemma insert_all_var2_result:
  "\<exists>t'. insert_all_var2 t segs = (Inr (), t')
       \<and> (segs \<noteq> [] \<longrightarrow> segments_var2 t' = sort_key fst (segments_var2 t @ segs))
       \<and> (segs = [] \<longrightarrow> t' = t)"
proof (induction segs arbitrary: t)
  case Nil
  show ?case by simp
next
  case (Cons s ss)
  obtain n where n: "RTree_insert_var2 t s =
      (Inr (), \<lparr>root_var2 = Some n, segments_var2 = sort_key fst (segments_var2 t @ [s])\<rparr>)"
    using RTree_insert_var2_result [of t s] by blast
  let ?t1 = "\<lparr>root_var2 = Some n, segments_var2 = sort_key fst (segments_var2 t @ [s])\<rparr>"
  from Cons.IH [of ?t1] obtain t' where
    t': "insert_all_var2 ?t1 ss = (Inr (), t')"
        "ss \<noteq> [] \<longrightarrow> segments_var2 t' = sort_key fst (segments_var2 ?t1 @ ss)"
        "ss = [] \<longrightarrow> t' = ?t1"
    by blast
  have "segments_var2 t' = sort_key fst (segments_var2 t @ s # ss)"
  proof (cases "ss = []")
    case True
    with t'(3) show ?thesis by simp
  next
    case False
    with t'(2) have "segments_var2 t' = sort_key fst (sort_key fst (segments_var2 t @ [s]) @ ss)"
      by simp
    then show ?thesis by (simp add: sort_key_append_sorted)
  qed
  with n t'(1) show ?case by simp
qed

lemma insert_all_store:
  "segments (insert_all t segs) = segments t @ segs"
  by (induction segs arbitrary: t) (auto simp: RTree_insert_def Let_def split: option.splits)

lemma contains_loop_iff:
  "contains_loop segs (L, H) = (\<exists>(l, h) \<in> set segs. l \<le> L \<and> H \<le> h)"
  by (induction segs) auto

lemma contains_loop_set:
  "set xs = set ys \<Longrightarrow> contains_loop xs q = contains_loop ys q"
  by (cases q) (simp add: contains_loop_iff)

lemma contains_loop_member: "s \<in> set segs \<Longrightarrow> contains_loop segs s"
  by (cases s) (force simp: contains_loop_iff)

lemma int_at_length: "int_at tokens i = Inr n \<Longrightarrow> i < length tokens"
  by (auto simp: int_at_def token_at_def split: if_splits)

lemma is_word_no_minus: "is_word c \<Longrightarrow> c \<noteq> CHR ''-''"
  by (auto simp: is_word_def)

lemma takeWhile_word_map:
  "takeWhile is_word (map (\<lambda>c. if c = CHR ''-'' then CHR '' '' else c) cs) = takeWhile is_word cs"
  by (induction cs) (auto simp: is_word_def)

lemma dropWhile_word_map:
  "dropWhile is_word (map (\<lambda>c. if c = CHR ''-'' then CHR '' '' else c) cs)
     = map (\<lambda>c. if c = CHR ''-'' then CHR '' '' else c) (dropWhile is_word cs)"
  by (induction cs) (auto simp: is_word_def)

lemma tokenize_minus:
  "tokenize (map (\<lambda>c. if c = CHR ''-'' then CHR '' '' else c) command) = tokenize command"
proof (induction command rule: tokenize.induct)
  case 1
  show ?case by simp
next
  case (2 c cs)
  show ?case
  proof (cases "is_word c")
    case True
    then have "c \<noteq> CHR ''-''" by (rule is_word_no_minus)
    with True 2 show ?thesis
      by (simp add: takeWhile_word_map dropWhile_word_map)
  next
    case False
    have sp: "\<not> is_word (CHR '' '')" by (simp add: is_word_def)
    from False 2 sp show ?thesis by auto
  qed
qed

lemma tokenize_chars:
  "tok \<in> set (tokenize command) \<Longrightarrow> c \<in> set tok \<Longrightarrow>
   is_word c \<or> c = CHR ''['' \<or> c = CHR '']'' \<or> c = CHR '',''"
proof (induction command rule: tokenize.induct)
  case 1
  then show ?case by simp
next
  case (2 d ds)
  then show ?case
    by (auto split: if_splits dest: set_takeWhileD)
qed

lemma digit_value_nonneg: "is_digit c \<Longrightarrow> 0 \<le> digit_value c"
  by (auto simp: is_digit_def digit_value_def)

lemma digits_value_nonneg:
  "0 \<le> acc \<Longrightarrow> digits_value s acc = Inr n \<Longrightarrow> 0 \<le> n"
proof (induction s acc rule: digits_value.induct)
  case (1 acc)
  then show ?case by simp
next
  case (2 c cs acc)
  show ?case
  proof (cases "is_digit c")
    case True
    with 2 digit_value_nonneg [OF True] show ?thesis by simp
  next
    case False
    with 2 show ?thesis by (simp split: if_splits)
  qed
qed

lemma strip_subset: "set (strip s) \<subseteq> set s"
  by (auto simp: strip_def dest!: set_dropWhileD)

lemma py_int_nonneg:
  assumes "CHR ''-'' \<notin> set s" and "py_int s = Inr n"
  shows "0 \<le> n"
proof (cases "strip s")
  case Nil
  with assms(2) show ?thesis by (simp add: py_int_def)
next
  case (Cons c cs)
  then have "c \<in> set s" using strip_subset [of s] by auto
  with assms(1) have c: "c \<noteq> CHR ''-''" by auto
  from assms(2) Cons c have "unsigned_value cs = Inr n \<or> unsigned_value (c # cs) = Inr n"
    by (simp add: py_int_def split: if_splits)
  then obtain u where "digits_value u 0 = Inr n"
    by (auto simp: unsigned_value_def simp del: digits_value.simps split: if_splits)
  then show ?thesis by (rule digits_value_nonneg [rotated]) simp
qed

lemma token_no_minus: "tok \<in> set (tokenize command) \<Longrightarrow> CHR ''-'' \<notin> set tok"
  using tokenize_chars [of tok command "CHR ''-''"] by (auto simp: is_word_def)

section \<open>Which commands raise\<close>

text \<open>
  The dispatcher of aaf-lab-var2.py never raises (\<open>parse_var2_never_raises\<close>). In the
  model of aaf-lab.py, which leaves Python's recursion limit out, the dispatcher raises
  only on \<open>PRINT_TREE\<close> for a set without a root, and then an \<open>AttributeError\<close>
  (\<open>parse_aaf_lab_raises_only\<close>); a tree deeper than the recursion limit would add a
  \<open>RecursionError\<close> in \<open>_insert_node\<close> and \<open>print_tree\<close> of that file.
\<close>

lemma print_tree_empty_set_var2:
  "fst (parse aaf_lab_var2 \<lparr>trees = [''s'' \<mapsto> RTree_init_var2], stdout = []\<rparr> ''PRINT_TREE s'')
     = Inr ''Tree for s printed above''
   \<and> stdout (snd (parse aaf_lab_var2 \<lparr>trees = [''s'' \<mapsto> RTree_init_var2], stdout = []\<rparr>
        ''PRINT_TREE s'')) = [''Tree is empty'']"
  by code_simp

lemma bbox_consistent_inner:
  "bbox_consistent (InnerNode ns b) \<Longrightarrow>
   \<exists>l r. ns = [l, r] \<and> bbox_consistent l \<and> bbox_consistent r"
  by (cases "(InnerNode ns b)" rule: bbox_consistent.cases) (auto split: option.splits)

lemma print_node_var2_ok:
  "bbox_consistent n \<Longrightarrow> snd (print_node_var2 n level position) = Inr ()"
proof (induction n arbitrary: level position)
  case (LeafNode s cs b)
  show ?case by simp
next
  case (InnerNode ns b)
  from bbox_consistent_inner [OF InnerNode.prems] obtain l r where
    ns: "ns = [l, r]" and c: "bbox_consistent l" "bbox_consistent r" by blast
  have "snd (print_node_var2 l (level + 1) ''Left Child'') = Inr ()"
    using InnerNode.IH [of l] ns c(1) by simp
  moreover have "snd (print_node_var2 r (level + 1) ''Right Child'') = Inr ()"
    using InnerNode.IH [of r] ns c(2) by simp
  ultimately show ?case
    unfolding ns by (auto split: prod.splits sum.splits)
qed

lemma search_segments_ok:
  "search_segments segs None ps = Inr segs"
  "q = ''CONTAINS'' \<or> q = ''INTERSECTS'' \<Longrightarrow>
     \<exists>r. search_segments segs (Some q) (SegParams (l, h)) = Inr r"
  "\<exists>r. search_segments segs (Some ''LEFT_OF'') (IntParams x) = Inr r"
  by (auto simp: search_segments_def)

lemma except_value_index_ok:
  "(\<And>e. fst r = Inl e \<Longrightarrow> e = ValueError \<or> e = IndexError) \<Longrightarrow>
   \<exists>out. fst (except_value_index r msg) = Inr out"
  by (cases r; cases "fst r") (auto simp: except_value_index_def)

lemma except_value_index_snd: "snd (except_value_index r msg) = snd r"
  by (cases r; cases "fst r") (auto simp: except_value_index_def)

lemma int_at_error: "int_at tokens i = Inl e \<Longrightarrow> e = ValueError \<or> e = IndexError"
proof -
  have d: "\<And>s acc e. digits_value s acc = Inl e \<Longrightarrow> e = ValueError"
  proof -
    fix s acc e show "digits_value s acc = Inl e \<Longrightarrow> e = ValueError"
      by (induction s acc rule: digits_value.induct) (auto split: if_splits)
  qed
  have u: "\<And>s e. unsigned_value s = Inl e \<Longrightarrow> e = ValueError"
    by (auto simp: unsigned_value_def simp del: digits_value.simps split: if_splits dest: d)
  have p: "\<And>s e. py_int s = Inl e \<Longrightarrow> e = ValueError"
    by (auto simp: py_int_def split: list.splits if_splits sum.splits dest: u)
  assume "int_at tokens i = Inl e"
  then show ?thesis
    by (auto simp: int_at_def token_at_def split: if_splits dest: p)
qed

lemma roots_consistent_stdout:
  "roots_consistent (st\<lparr>stdout := out\<rparr>) = roots_consistent st"
  by (simp add: roots_consistent_def)

lemma roots_consistent_update:
  "roots_consistent st \<Longrightarrow> (\<And>n. root_var2 t = Some n \<Longrightarrow> bbox_consistent n) \<Longrightarrow>
   roots_consistent (st\<lparr>trees := (trees st)(name \<mapsto> t)\<rparr>)"
  by (auto simp: roots_consistent_def)

lemma Parser_create_var2_ok:
  assumes "roots_consistent st"
  shows "(\<exists>out. fst (Parser_create aaf_lab_var2 st tokens) = Inr out)
       \<and> roots_consistent (snd (Parser_create aaf_lab_var2 st tokens))"
  using assms
  by (auto simp: Parser_create_def Let_def aaf_lab_var2_def RTree_init_var2_def
      intro!: roots_consistent_update)

lemma Parser_insert_var2_ok:
  assumes "roots_consistent st"
  shows "(\<exists>out. fst (Parser_insert aaf_lab_var2 st tokens) = Inr out)
       \<and> roots_consistent (snd (Parser_insert aaf_lab_var2 st tokens))"
proof (cases "length tokens < 4 \<or> trees st (tokens ! 1) = None")
  case True
  with assms show ?thesis by (auto simp: Parser_insert_def Let_def)
next
  case False
  then obtain tree where tree: "trees st (tokens ! 1) = Some tree" and len: "\<not> length tokens < 4"
    by auto
  show ?thesis
  proof (cases "int_at tokens 3")
    case (Inl e)
    with int_at_error [OF Inl] tree len assms show ?thesis
      by (auto simp: Parser_insert_def Let_def except_value_index_def)
  next
    case l: (Inr l)
    show ?thesis
    proof (cases "int_at tokens 5")
      case (Inl e)
      with int_at_error [OF Inl] l tree len assms show ?thesis
        by (auto simp: Parser_insert_def Let_def except_value_index_def)
    next
      case h: (Inr h)
      obtain n where n: "RTree_insert_var2 tree (l, h) =
          (Inr (), \<lparr>root_var2 = Some n,
                    segments_var2 = sort_key fst (segments_var2 tree @ [(l, h)])\<rparr>)"
          "bbox_consistent n"
        using RTree_insert_var2_result [of tree "(l, h)"] by blast
      have "roots_consistent (st\<lparr>trees := (trees st)(tokens ! 1 \<mapsto>
          \<lparr>root_var2 = Some n,
           segments_var2 = sort_key fst (segments_var2 tree @ [(l, h)])\<rparr>)\<rparr>)"
        using assms n(2) by (intro roots_consistent_update) auto
      with l h tree len assms n(1) show ?thesis
        by (simp add: Parser_insert_def Let_def except_value_index_def aaf_lab_var2_def)
    qed
  qed
qed

lemma Parser_print_tree_var2_ok:
  assumes "roots_consistent st"
  shows "(\<exists>out. fst (Parser_print_tree aaf_lab_var2 st tokens) = Inr out)
       \<and> roots_consistent (snd (Parser_print_tree aaf_lab_var2 st tokens))"
proof (cases "length tokens < 2 \<or> trees st (tokens ! 1) = None")
  case True
  with assms show ?thesis by (auto simp: Parser_print_tree_def Let_def)
next
  case False
  then obtain tree where tree: "trees st (tokens ! 1) = Some tree" and len: "\<not> length tokens < 2"
    by auto
  have "snd (RTree_print_tree_var2 tree) = Inr ()"
  proof (cases "root_var2 tree")
    case None
    then show ?thesis by (simp add: RTree_print_tree_var2_def)
  next
    case (Some n)
    with assms tree have "bbox_consistent n" by (auto simp: roots_consistent_def)
    with Some show ?thesis by (simp add: RTree_print_tree_var2_def print_node_var2_ok)
  qed
  then obtain printed where "RTree_print_tree_var2 tree = (printed, Inr ())"
    by (cases "RTree_print_tree_var2 tree") auto
  with tree len assms show ?thesis
    by (simp add: Parser_print_tree_def Let_def aaf_lab_var2_def roots_consistent_stdout)
qed

lemma Parser_contains_ok:
  "(\<exists>out. fst (Parser_contains cls st tokens) = Inr out)
   \<and> snd (Parser_contains cls st tokens) = st"
proof (cases "length tokens < 4 \<or> trees st (tokens ! 1) = None")
  case True
  then show ?thesis by (auto simp: Parser_contains_def Let_def)
next
  case False
  then obtain tree where tree: "trees st (tokens ! 1) = Some tree" and len: "\<not> length tokens < 4"
    by auto
  show ?thesis
  proof (cases "int_at tokens 3")
    case (Inl e)
    with int_at_error [OF Inl] tree len show ?thesis
      by (auto simp: Parser_contains_def Let_def except_value_index_def)
  next
    case l: (Inr l)
    show ?thesis
    proof (cases "int_at tokens 5")
      case (Inl e)
      with int_at_error [OF Inl] l tree len show ?thesis
        by (auto simp: Parser_contains_def Let_def except_value_index_def)
    next
      case (Inr h)
      with l tree len show ?thesis
        by (simp add: Parser_contains_def Let_def except_value_index_def)
    qed
  qed
qed

lemma Parser_search_ok:
  assumes srch: "\<And>t q ps. tree_search cls t q ps = search_segments (store t) q ps"
  shows "(\<exists>out. fst (Parser_search cls st tokens) = Inr out)
       \<and> snd (Parser_search cls st tokens) = st"
proof (cases "length tokens < 2 \<or> trees st (tokens ! 1) = None")
  case True
  then show ?thesis by (auto simp: Parser_search_def Let_def)
next
  case False
  then obtain tree where tree: "trees st (tokens ! 1) = Some tree" and len: "\<not> length tokens < 2"
    by auto
  show ?thesis
  proof (cases "length tokens = 2 \<or> length tokens < 4 \<or> upper (tokens ! 2) \<noteq> ''WHERE''")
    case True
    with tree len show ?thesis
      by (auto simp: Parser_search_def Let_def srch search_segments_def)
  next
    case False
    let ?q = "upper (tokens ! 3)"
    let ?msg = "''Invalid SEARCH command: invalid '' @ ?q @ '' parameters''"
    define body where "body =
       (if ?q = ''CONTAINS'' \<or> ?q = ''INTERSECTS'' then
          (case int_at tokens 5 of
             Inl e \<Rightarrow> (Inl e, st)
           | Inr l \<Rightarrow>
              (case int_at tokens 7 of
                 Inl e \<Rightarrow> (Inl e, st)
               | Inr h \<Rightarrow>
                  (case tree_search cls tree (Some ?q) (SegParams (l, h)) of
                     Inl e \<Rightarrow> (Inl e, st)
                   | Inr results \<Rightarrow>
                       (Inr (''Search results: '' @ str_segments results), st))))
        else if ?q = ''LEFT_OF'' then
          (case int_at tokens 4 of
             Inl e \<Rightarrow> (Inl e, st)
           | Inr x \<Rightarrow>
              (case tree_search cls tree (Some ?q) (IntParams x) of
                 Inl e \<Rightarrow> (Inl e, st)
               | Inr results \<Rightarrow>
                   (Inr (''Search results: '' @ str_segments results), st)))
        else (Inr ''Invalid SEARCH command: unknown search type'', st))"
    have eq: "Parser_search cls st tokens = except_value_index body ?msg"
      using False tree len by (simp add: Parser_search_def Let_def body_def)
    have st: "snd body = st"
      by (auto simp: body_def split: sum.splits)
    have err: "\<And>e. fst body = Inl e \<Longrightarrow> e = ValueError \<or> e = IndexError"
      by (auto simp: body_def srch search_segments_def split: sum.splits if_splits
          dest: int_at_error)
    from except_value_index_ok [of body, OF err] obtain out where
      "fst (except_value_index body ?msg) = Inr out" by blast
    then show ?thesis by (simp add: eq except_value_index_snd st)
  qed
qed

lemma Parser_insert_ok:
  assumes ins: "\<And>t seg. fst (tree_insert cls t seg) = Inr ()"
  shows "\<exists>out. fst (Parser_insert cls st tokens) = Inr out"
proof (cases "length tokens < 4 \<or> trees st (tokens ! 1) = None")
  case True
  then show ?thesis by (auto simp: Parser_insert_def Let_def)
next
  case False
  then obtain tree where tree: "trees st (tokens ! 1) = Some tree" and len: "\<not> length tokens < 4"
    by auto
  show ?thesis
  proof (cases "int_at tokens 3")
    case (Inl e)
    with int_at_error [OF Inl] tree len show ?thesis
      by (auto simp: Parser_insert_def Let_def except_value_index_def)
  next
    case l: (Inr l)
    show ?thesis
    proof (cases "int_at tokens 5")
      case (Inl e)
      with int_at_error [OF Inl] l tree len show ?thesis
        by (auto simp: Parser_insert_def Let_def except_value_index_def)
    next
      case h: (Inr h)
      obtain t' where "tree_insert cls tree (l, h) = (Inr (), t')"
        using ins [of tree "(l, h)"] by (cases "tree_insert cls tree (l, h)") auto
      with l h tree len show ?thesis
        by (simp add: Parser_insert_def Let_def except_value_index_def)
    qed
  qed
qed

lemma parse_cases:
  "parse cls st command =
     (let tokens = tokenize command in
      if tokens = [] then (Inr ''Invalid command'', st)
      else if upper (tokens ! 0) = ''CREATE'' then Parser_create cls st tokens
      else if upper (tokens ! 0) = ''INSERT'' then Parser_insert cls st tokens
      else if upper (tokens ! 0) = ''PRINT_TREE'' then Parser_print_tree cls st tokens
      else if upper (tokens ! 0) = ''CONTAINS'' then Parser_contains cls st tokens
      else if upper (tokens ! 0) = ''SEARCH'' then Parser_search cls st tokens
      else (Inr ''Unknown command'', st))"
  by (simp add: parse_def COMMANDS_def Let_def)

lemma parse_var2_never_raises:
  assumes "roots_consistent st"
  shows "(\<exists>out. fst (parse aaf_lab_var2 st command) = Inr out)
       \<and> roots_consistent (snd (parse aaf_lab_var2 st command))"
proof -
  have s: "\<And>t q ps. tree_search aaf_lab_var2 t q ps = search_segments (segments_var2 t) q ps"
    by (simp add: aaf_lab_var2_def RTree_search_var2_def)
  note c = Parser_create_var2_ok [OF assms] Parser_insert_var2_ok [OF assms]
    Parser_print_tree_var2_ok [OF assms] Parser_contains_ok [of aaf_lab_var2 st]
    Parser_search_ok [of aaf_lab_var2 segments_var2 st, OF s]
  show ?thesis
    unfolding parse_cases Let_def
    using assms c by (simp del: tokenize.simps)
qed

lemma roots_consistent_init: "roots_consistent Parser_init"
  by (simp add: roots_consistent_def Parser_init_def)

lemma parse_all_var2_never_raises:
  "roots_consistent st \<Longrightarrow> \<exists>outs. fst (parse_all aaf_lab_var2 st commands) = Inr outs"
proof (induction commands arbitrary: st)
  case Nil
  show ?case by simp
next
  case (Cons c cs)
  from parse_var2_never_raises [OF Cons.prems, of c] obtain out where
    o: "fst (parse aaf_lab_var2 st c) = Inr out"
       "roots_consistent (snd (parse aaf_lab_var2 st c))" by blast
  from Cons.IH [OF o(2)] obtain outs where
    "fst (parse_all aaf_lab_var2 (snd (parse aaf_lab_var2 st c)) cs) = Inr outs" by blast
  with o(1) show ?case
    by (cases "parse aaf_lab_var2 st c";
        cases "parse_all aaf_lab_var2 (snd (parse aaf_lab_var2 st c)) cs") auto
qed

lemma parse_aaf_lab_raises_only:
  assumes "fst (parse aaf_lab st command) = Inl e"
  shows "e = AttributeError
       \<and> upper (tokenize command ! 0) = ''PRINT_TREE''
       \<and> (\<exists>t. trees st (tokenize command ! 1) = Some t \<and> root t = None)"
proof -
  let ?toks = "tokenize command"
  have s: "\<And>t q ps. tree_search aaf_lab t q ps = search_segments (segments t) q ps"
    by (simp add: aaf_lab_def RTree_search_def)
  have cr: "\<exists>out. fst (Parser_create aaf_lab st ?toks) = Inr out"
    by (simp add: Parser_create_def Let_def)
  have ins: "\<exists>out. fst (Parser_insert aaf_lab st ?toks) = Inr out"
    by (rule Parser_insert_ok) (simp add: aaf_lab_def)
  note co = Parser_contains_ok [of aaf_lab st ?toks]
  note se = Parser_search_ok [of aaf_lab segments st ?toks, OF s]
  from assms cr ins co se have pt: "upper (?toks ! 0) = ''PRINT_TREE''"
    "fst (Parser_print_tree aaf_lab st ?toks) = Inl e"
    unfolding parse_cases Let_def
    by (auto simp del: tokenize.simps split: if_splits)
  from pt(2) have "e = AttributeError
      \<and> (\<exists>t. trees st (?toks ! 1) = Some t \<and> root t = None)"
    by (auto simp: Parser_print_tree_def Let_def aaf_lab_def RTree_print_tree_def
        split: if_splits option.splits)
  with pt(1) show ?thesis by simp
qed

section \<open>The claims\<close>

text \<open>
  C1. Claimed: after any sequence of insertions the store holds the inserted segments in
  insertion order, the build sorting a copy only. In aaf-lab-var2.py the build receives
  the store itself and sorts it in place: after inserting \<open>[3, 4]\<close> and then
  \<open>[2, 7]\<close> the store, the unfiltered search and the answer to \<open>SEARCH s\<close> all
  give \<open>[2, 7]\<close> before \<open>[3, 4]\<close>. (By \<open>insert_all_var2_result\<close> the store is
  the stable sort of the insertions by lower bound; by \<open>insert_all_store\<close> the index
  of aaf-lab.py keeps the insertion order.)
\<close>

theorem insertion_order_lost_var2:
  "insert_all_var2 RTree_init_var2 [(3, 4), (2, 7)] =
     (Inr (),
      \<lparr>root_var2 = Some (InnerNode [LeafNode (2, 7) [(2, 7)] (Some (2, 7)),
                                     LeafNode (3, 4) [(3, 4)] (Some (3, 4))] (Some (2, 7))),
       segments_var2 = [(2, 7), (3, 4)]\<rparr>)
   \<and> RTree_search_var2 (snd (insert_all_var2 RTree_init_var2 [(3, 4), (2, 7)])) None NoParams
       = Inr [(2, 7), (3, 4)]
   \<and> fst (parse_all aaf_lab_var2 Parser_init
            [''CREATE s'', ''INSERT s [3, 4]'', ''INSERT s [2, 7]'', ''SEARCH s''])
       = Inr [''Set s has been created'', ''Range [3, 4] has been added to s'',
              ''Range [2, 7] has been added to s'', ''Search results: [[2, 7], [3, 4]]'']"
  by code_simp

text \<open>
  C2. Claimed: no command makes the dispatcher raise, \<open>PRINT_TREE\<close> on a set without
  insertions included. In aaf-lab.py that command reads \<open>node.right\<close> of \<open>None\<close>:
  after \<open>CREATE s\<close>, the command \<open>PRINT_TREE s\<close> ends in an \<open>AttributeError\<close> that
  no handler catches. The same two commands given to aaf-lab-var2.py print
  \<open>Tree is empty\<close> and return (\<open>print_tree_empty_set_var2\<close>).
\<close>

theorem print_tree_empty_set_raises:
  "parse aaf_lab Parser_init ''CREATE s'' =
     (Inr ''Set s has been created'', \<lparr>trees = [''s'' \<mapsto> RTree_init], stdout = []\<rparr>)
   \<and> fst (parse aaf_lab \<lparr>trees = [''s'' \<mapsto> RTree_init], stdout = []\<rparr> ''PRINT_TREE s'')
       = Inl AttributeError"
proof (rule conjI)
  show "parse aaf_lab Parser_init ''CREATE s'' =
     (Inr ''Set s has been created'', \<lparr>trees = [''s'' \<mapsto> RTree_init], stdout = []\<rparr>)"
    by (simp add: parse_def is_word_def upper_def upper_char_def COMMANDS_def Let_def
        Parser_create_def Parser_init_def aaf_lab_def)
  show "fst (parse aaf_lab \<lparr>trees = [''s'' \<mapsto> RTree_init], stdout = []\<rparr> ''PRINT_TREE s'')
       = Inl AttributeError"
    by code_simp
qed

text \<open>
  C3. Every insertion into the index of aaf-lab-var2.py succeeds and leaves a tree in
  which each leaf's bbox is the one segment it wraps and each inner node's bbox is the
  minimum of its two children's lower bounds and the maximum of their upper bounds, at
  every level.
\<close>

theorem insert_bbox_invariant:
  "\<exists>n store. RTree_insert_var2 t seg = (Inr (), \<lparr>root_var2 = Some n, segments_var2 = store\<rparr>)
             \<and> bbox_consistent n"
  using RTree_insert_var2_result [of t seg] by blast

text \<open>
  C4. On a non-empty sequence the build returns a leaf for one segment; otherwise it
  sorts by lower bound, cuts at index \<open>len div 2\<close>, builds the part before the cut and
  the part from the cut on, and returns the inner node with these two children in this
  order and the bbox of their bounds. Building again from the store the build has left
  gives the same store and the same tree.
\<close>

theorem build_shape:
  assumes "segs \<noteq> []"
  shows "(length segs = 1 \<longrightarrow>
           snd (build_tree_recursive segs) = Inr (LeafNode (segs ! 0) segs (Some (segs ! 0))))
       \<and> (length segs \<noteq> 1 \<longrightarrow>
           (\<exists>l r bl br.
              snd (build_tree_recursive (take (length segs div 2) (sort_key fst segs))) = Inr l
            \<and> snd (build_tree_recursive (drop (length segs div 2) (sort_key fst segs))) = Inr r
            \<and> bbox l = Some bl \<and> bbox r = Some br
            \<and> snd (build_tree_recursive segs) =
                Inr (InnerNode [l, r] (Some (min (fst bl) (fst br), max (snd bl) (snd br))))))
       \<and> build_tree_recursive (fst (build_tree_recursive segs)) = build_tree_recursive segs"
proof (intro conjI impI)
  assume "length segs = 1"
  then obtain s where "segs = [s]" by (cases segs) auto
  then show "snd (build_tree_recursive segs) = Inr (LeafNode (segs ! 0) segs (Some (segs ! 0)))"
    by (simp add: build_single)
next
  assume "length segs \<noteq> 1"
  with assms have len: "2 \<le> length segs" by (cases segs) (auto simp: Suc_le_eq)
  let ?srt = "sort_key fst segs"
  let ?mid = "length segs div 2"
  have "0 < length (take ?mid ?srt)" using len by auto
  then have "take ?mid ?srt \<noteq> []" by (simp del: length_take)
  from build_ok [OF this] obtain l bl where
    l: "snd (build_tree_recursive (take ?mid ?srt)) = Inr l" "bbox l = Some bl" by blast
  have "0 < length (drop ?mid ?srt)" using len by auto
  then have "drop ?mid ?srt \<noteq> []" by (simp del: length_drop)
  from build_ok [OF this] obtain r br where
    r: "snd (build_tree_recursive (drop ?mid ?srt)) = Inr r" "bbox r = Some br" by blast
  have "snd (build_tree_recursive segs) =
      Inr (InnerNode [l, r] (Some (min (fst bl) (fst br), max (snd bl) (snd br))))"
    using l r by (simp add: build_split [OF len] update_bbox_pair del: update_bbox.simps)
  with l r show "\<exists>l r bl br.
      snd (build_tree_recursive (take ?mid ?srt)) = Inr l
    \<and> snd (build_tree_recursive (drop ?mid ?srt)) = Inr r
    \<and> bbox l = Some bl \<and> bbox r = Some br
    \<and> snd (build_tree_recursive segs) =
        Inr (InnerNode [l, r] (Some (min (fst bl) (fst br), max (snd bl) (snd br))))"
    by blast
next
  show "build_tree_recursive (fst (build_tree_recursive segs)) = build_tree_recursive segs"
    by (simp add: build_store build_sorted_again)
qed

theorem build_shape_witness:
  "[(3,4),(2,7),(5,8)] \<noteq> ([] :: segment list)
   \<and> snd (build_tree_recursive [(3,4),(2,7),(5,8)]) =
       Inr (InnerNode [LeafNode (2,7) [(2,7)] (Some (2,7)),
                       InnerNode [LeafNode (3,4) [(3,4)] (Some (3,4)),
                                  LeafNode (5,8) [(5,8)] (Some (5,8))] (Some (3,8))]
                      (Some (2,8)))
   \<and> build_tree_recursive (fst (build_tree_recursive [(3,4),(2,7),(5,8)]))
       = build_tree_recursive [(3,4),(2,7),(5,8)]"
  using build_shape [of "[(3,4),(2,7),(5,8)]"]
  by (simp add: build_tree_recursive.simps)

text \<open>
  C5. In both files \<open>contains\<close> is true exactly when some stored segment \<open>[l, h]\<close>
  has \<open>l \<le> L\<close> and \<open>H \<le> h\<close>; on the empty store it is false.
\<close>

theorem contains_iff_nested:
  "RTree_contains t (L, H) = (\<exists>(l, h) \<in> set (segments t). l \<le> L \<and> H \<le> h)
   \<and> RTree_contains_var2 t2 (L, H) = (\<exists>(l, h) \<in> set (segments_var2 t2). l \<le> L \<and> H \<le> h)
   \<and> \<not> RTree_contains RTree_init (L, H)
   \<and> \<not> RTree_contains_var2 RTree_init_var2 (L, H)"
  by (simp add: RTree_contains_def RTree_contains_var2_def contains_loop_iff
      RTree_init_def RTree_init_var2_def)

theorem contains_iff_nested_witness:
  "RTree_contains \<lparr>root = None, segments = [(3, 4), (2, 7)]\<rparr> (2, 5)
   \<and> (\<exists>(l, h) \<in> set [(3, 4), (2, 7)]. l \<le> (2::int) \<and> (5::int) \<le> h)
   \<and> \<not> RTree_contains_var2 \<lparr>root_var2 = None, segments_var2 = [(2, 7), (3, 4)]\<rparr> (3, 11)
   \<and> \<not> (\<exists>(l, h) \<in> set [(2, 7), (3, 4)]. l \<le> (3::int) \<and> (11::int) \<le> h)"
  using contains_iff_nested [where t = "\<lparr>root = None, segments = [(3, 4), (2, 7)]\<rparr>"
      and L = 2 and H = 5]
    contains_iff_nested [where ?t2.0 = "\<lparr>root_var2 = None, segments_var2 = [(2, 7), (3, 4)]\<rparr>"
      and L = 3 and H = 11]
  by simp

text \<open>
  C6. In both files a filtered search returns the stored segments that satisfy the
  predicate, in the order of the store: \<open>l \<le> L\<close> and \<open>H \<le> h\<close> for \<open>CONTAINS\<close>,
  not (\<open>h < L\<close> or \<open>H < l\<close>) for \<open>INTERSECTS\<close>, \<open>h \<le> X\<close> for \<open>LEFT_OF\<close>.
\<close>

theorem search_filters:
  "RTree_search_var2 t2 (Some ''CONTAINS'') (SegParams (L, H))
     = Inr (filter (\<lambda>(l, h). l \<le> L \<and> H \<le> h) (segments_var2 t2))
   \<and> RTree_search_var2 t2 (Some ''INTERSECTS'') (SegParams (L, H))
     = Inr (filter (\<lambda>(l, h). \<not> (h < L \<or> H < l)) (segments_var2 t2))
   \<and> RTree_search_var2 t2 (Some ''LEFT_OF'') (IntParams X)
     = Inr (filter (\<lambda>(l, h). h \<le> X) (segments_var2 t2))
   \<and> RTree_search t (Some ''CONTAINS'') (SegParams (L, H))
     = Inr (filter (\<lambda>(l, h). l \<le> L \<and> H \<le> h) (segments t))
   \<and> RTree_search t (Some ''INTERSECTS'') (SegParams (L, H))
     = Inr (filter (\<lambda>(l, h). \<not> (h < L \<or> H < l)) (segments t))
   \<and> RTree_search t (Some ''LEFT_OF'') (IntParams X)
     = Inr (filter (\<lambda>(l, h). h \<le> X) (segments t))"
  by (simp add: RTree_search_var2_def RTree_search_def search_segments_def split_def)

text \<open>
  C7. Claimed: every \<open>INSERT\<close> command with \<open>l > h\<close> is answered by the
  lower-bound-greater-than-upper-bound message. \<open>Parser.insert\<close> looks the set up
  before it reads the bounds: \<open>INSERT nosuch [5,3]\<close>, with no set \<open>nosuch\<close>, has the
  bounds 5 and 3 and is answered by \<open>Set nosuch does not exist\<close> in both files.
\<close>

theorem insert_inverted_bounds_missing_set:
  "tokenize ''INSERT nosuch [5,3]'' = [''INSERT'', ''nosuch'', ''['', ''5'', '','', ''3'', '']'']
   \<and> int_at (tokenize ''INSERT nosuch [5,3]'') 3 = Inr 5
   \<and> int_at (tokenize ''INSERT nosuch [5,3]'') 5 = Inr 3
   \<and> (5::int) > 3
   \<and> fst (parse aaf_lab Parser_init ''INSERT nosuch [5,3]'') = Inr ''Set nosuch does not exist''
   \<and> fst (parse aaf_lab_var2 Parser_init ''INSERT nosuch [5,3]'')
       = Inr ''Set nosuch does not exist''
   \<and> ''Set nosuch does not exist''
       \<noteq> ''Invalid INSERT command: lower bound greater than upper bound''"
  by code_simp

text \<open>
  C7, as amended. An \<open>INSERT\<close> command whose two bounds, as the parser reads them
  from the fourth and sixth token, satisfy \<open>l > h\<close> changes nothing: the dictionary of
  sets, every store and tree in it and the output stay as they were. When the named set
  exists the answer is the lower-bound-greater-than-upper-bound message; when it does
  not, the answer is that the set does not exist. This holds for the parser of either
  file.
\<close>

theorem insert_inverted_bounds_existing_set:
  assumes "tokenize command = tokens"
    and "upper (tokens ! 0) = ''INSERT''"
    and "int_at tokens 3 = Inr l" and "int_at tokens 5 = Inr h" and "l > h"
  shows "(trees st (tokens ! 1) \<noteq> None \<longrightarrow>
            parse cls st command =
              (Inr ''Invalid INSERT command: lower bound greater than upper bound'', st))
       \<and> (trees st (tokens ! 1) = None \<longrightarrow>
            parse cls st command = (Inr (''Set '' @ tokens ! 1 @ '' does not exist''), st))"
proof -
  from assms(3) have len: "3 < length tokens" by (rule int_at_length)
  then have ne: "tokens \<noteq> []" by auto
  have p: "parse cls st command = Parser_insert cls st tokens"
    using assms(1,2) ne by (simp add: parse_def COMMANDS_def Let_def)
  show ?thesis
  proof (cases "trees st (tokens ! 1)")
    case None
    with len show ?thesis by (simp add: p Parser_insert_def Let_def)
  next
    case (Some tree)
    with len assms(3,4,5) show ?thesis
      by (simp add: p Parser_insert_def Let_def except_value_index_def)
  qed
qed

theorem insert_inverted_bounds_existing_set_witness:
  "parse aaf_lab \<lparr>trees = [''seg'' \<mapsto> RTree_init], stdout = []\<rparr> ''INSERT seg [5,3]''
     = (Inr ''Invalid INSERT command: lower bound greater than upper bound'',
        \<lparr>trees = [''seg'' \<mapsto> RTree_init], stdout = []\<rparr>)
   \<and> parse aaf_lab_var2 \<lparr>trees = [''seg'' \<mapsto> RTree_init_var2], stdout = []\<rparr> ''INSERT seg [5,3]''
     = (Inr ''Invalid INSERT command: lower bound greater than upper bound'',
        \<lparr>trees = [''seg'' \<mapsto> RTree_init_var2], stdout = []\<rparr>)
   \<and> parse aaf_lab_var2 \<lparr>trees = Map.empty, stdout = []\<rparr> ''INSERT seg [5,3]''
     = (Inr ''Set seg does not exist'', \<lparr>trees = Map.empty, stdout = []\<rparr>)"
proof -
  have tk: "tokenize ''INSERT seg [5,3]'' = [''INSERT'', ''seg'', ''['', ''5'', '','', ''3'', '']'']"
    by code_simp
  let ?toks = "[''INSERT'', ''seg'', ''['', ''5'', '','', ''3'', '']'']"
  have up: "upper (?toks ! 0) = ''INSERT''"
    by code_simp
  have l: "int_at ?toks 3 = Inr 5"
    by code_simp
  have h: "int_at ?toks 5 = Inr 3"
    by code_simp
  have gt: "(5::int) > 3" by simp
  note w1 = insert_inverted_bounds_existing_set [OF tk up l h gt,
      of "\<lparr>trees = [''seg'' \<mapsto> RTree_init], stdout = []\<rparr>" aaf_lab]
  note w2 = insert_inverted_bounds_existing_set [OF tk up l h gt,
      of "\<lparr>trees = [''seg'' \<mapsto> RTree_init_var2], stdout = []\<rparr>" aaf_lab_var2]
  note w3 = insert_inverted_bounds_existing_set [OF tk up l h gt,
      of "\<lparr>trees = Map.empty, stdout = []\<rparr>" aaf_lab_var2]
  from w1 w2 w3 show ?thesis
    by simp
qed

text \<open>
  C8. In both files, right after \<open>insert(s)\<close> the call \<open>contains(s)\<close> is true and
  \<open>s\<close> is among the segments of the unfiltered search. This holds for every segment,
  whether or not \<open>l \<le> h\<close>.
\<close>

theorem insert_then_contains:
  "(\<exists>t'. RTree_insert_var2 t2 s = (Inr (), t')
         \<and> RTree_contains_var2 t' s
         \<and> (\<exists>r. RTree_search_var2 t' None NoParams = Inr r \<and> s \<in> set r))
   \<and> RTree_contains (RTree_insert t s) s
   \<and> (\<exists>r. RTree_search (RTree_insert t s) None NoParams = Inr r \<and> s \<in> set r)"
proof (intro conjI)
  obtain n where n: "RTree_insert_var2 t2 s =
      (Inr (), \<lparr>root_var2 = Some n, segments_var2 = sort_key fst (segments_var2 t2 @ [s])\<rparr>)"
    using RTree_insert_var2_result [of t2 s] by blast
  have "s \<in> set (sort_key fst (segments_var2 t2 @ [s]))" by simp
  then have "contains_loop (sort_key fst (segments_var2 t2 @ [s])) s"
    by (rule contains_loop_member)
  with n show "\<exists>t'. RTree_insert_var2 t2 s = (Inr (), t')
         \<and> RTree_contains_var2 t' s
         \<and> (\<exists>r. RTree_search_var2 t' None NoParams = Inr r \<and> s \<in> set r)"
    by (simp add: RTree_contains_var2_def RTree_search_var2_def search_segments_def)
next
  have seg: "segments (RTree_insert t s) = segments t @ [s]"
    by (simp add: RTree_insert_def Let_def split: option.splits)
  show "RTree_contains (RTree_insert t s) s"
    by (simp add: RTree_contains_def seg contains_loop_member)
  show "\<exists>r. RTree_search (RTree_insert t s) None NoParams = Inr r \<and> s \<in> set r"
    by (simp add: RTree_search_def search_segments_def seg)
qed

text \<open>
  C9. The tokenizer has no alternative for the minus sign, so it passes over it as over
  a blank: a command and the same command with every \<open>-\<close> replaced by a blank have
  the same tokens and the same effect in either parser, and no token that the parser
  reads as an integer is negative. So \<open>INSERT s [ -5 , 10 ]\<close> is accepted and stores
  \<open>[5, 10]\<close>, and no command stores or queries a negative bound.
\<close>

theorem minus_sign_dropped:
  "tokenize (map (\<lambda>c. if c = CHR ''-'' then CHR '' '' else c) command) = tokenize command
   \<and> parse cls st (map (\<lambda>c. if c = CHR ''-'' then CHR '' '' else c) command)
       = parse cls st command
   \<and> (\<forall>i n. int_at (tokenize command) i = Inr n \<longrightarrow> 0 \<le> n)"
proof (intro conjI allI impI)
  show "tokenize (map (\<lambda>c. if c = CHR ''-'' then CHR '' '' else c) command) = tokenize command"
    by (rule tokenize_minus)
  show "parse cls st (map (\<lambda>c. if c = CHR ''-'' then CHR '' '' else c) command)
       = parse cls st command"
    by (simp add: parse_def tokenize_minus)
next
  fix i n
  assume a: "int_at (tokenize command) i = Inr n"
  then have "i < length (tokenize command)" "py_int (tokenize command ! i) = Inr n"
    by (auto simp: int_at_def token_at_def split: if_splits)
  then show "0 \<le> n"
    using token_no_minus [of "tokenize command ! i" command] py_int_nonneg by auto
qed

theorem minus_sign_dropped_witness:
  "parse aaf_lab_var2 \<lparr>trees = [''s'' \<mapsto> RTree_init_var2], stdout = []\<rparr> ''INSERT s [ -5 , 10 ]''
     = parse aaf_lab_var2 \<lparr>trees = [''s'' \<mapsto> RTree_init_var2], stdout = []\<rparr> ''INSERT s [  5 , 10 ]''
   \<and> tokenize ''INSERT s [ -5 , 10 ]'' = [''INSERT'', ''s'', ''['', ''5'', '','', ''10'', '']'']
   \<and> int_at (tokenize ''INSERT s [ -5 , 10 ]'') 3 = Inr 5 \<and> (0::int) \<le> 5
   \<and> fst (parse aaf_lab_var2 \<lparr>trees = [''s'' \<mapsto> RTree_init_var2], stdout = []\<rparr>
            ''INSERT s [ -5 , 10 ]'') = Inr ''Range [5, 10] has been added to s''
   \<and> map_option segments_var2
        (trees (snd (parse aaf_lab_var2 \<lparr>trees = [''s'' \<mapsto> RTree_init_var2], stdout = []\<rparr>
            ''INSERT s [ -5 , 10 ]'')) ''s'') = Some [(5, 10)]
   \<and> map_option segments
        (trees (snd (parse aaf_lab \<lparr>trees = [''s'' \<mapsto> RTree_init], stdout = []\<rparr>
            ''INSERT s [ -5 , 10 ]'')) ''s'') = Some [(5, 10)]"
proof -
  let ?st = "\<lparr>trees = [''s'' \<mapsto> RTree_init_var2], stdout = []\<rparr>"
  note t = minus_sign_dropped [of "''INSERT s [ -5 , 10 ]''" aaf_lab_var2 ?st]
  have m: "map (\<lambda>c. if c = CHR ''-'' then CHR '' '' else c) ''INSERT s [ -5 , 10 ]''
           = ''INSERT s [  5 , 10 ]''" by simp
  have a: "parse aaf_lab_var2 ?st ''INSERT s [ -5 , 10 ]'' = parse aaf_lab_var2 ?st ''INSERT s [  5 , 10 ]''"
    using t unfolding m by simp
  have tk: "tokenize ''INSERT s [ -5 , 10 ]'' = [''INSERT'', ''s'', ''['', ''5'', '','', ''10'', '']'']"
    by (simp add: is_word_def)
  have i5: "int_at (tokenize ''INSERT s [ -5 , 10 ]'') 3 = Inr 5"
    unfolding tk
    by (simp add: int_at_def token_at_def py_int_def strip_def is_space_def unsigned_value_def
        is_digit_def digit_value_def)
  have nn: "(0::int) \<le> 5" using t i5 by blast
  have r2: "fst (parse aaf_lab_var2 ?st ''INSERT s [ -5 , 10 ]'')
      = Inr ''Range [5, 10] has been added to s''"
    by code_simp
  have r3: "map_option segments_var2
        (trees (snd (parse aaf_lab_var2 ?st ''INSERT s [ -5 , 10 ]'')) ''s'') = Some [(5, 10)]"
    by code_simp
  have r1: "map_option segments
        (trees (snd (parse aaf_lab \<lparr>trees = [''s'' \<mapsto> RTree_init], stdout = []\<rparr>
            ''INSERT s [ -5 , 10 ]'')) ''s'') = Some [(5, 10)]"
    by code_simp
  show ?thesis
    using a tk i5 nn r1 r2 r3 by blast
qed

text \<open>
  C10. The same segments inserted in the same order into an empty index of each file
  give two stores with the same multiset of segments, and \<open>contains\<close> answers every
  query alike on both.
\<close>

theorem contains_variants_agree:
  "\<exists>t2. insert_all_var2 RTree_init_var2 segs = (Inr (), t2)
       \<and> mset (segments_var2 t2) = mset (segments (insert_all RTree_init segs))
       \<and> RTree_contains_var2 t2 q = RTree_contains (insert_all RTree_init segs) q"
proof -
  from insert_all_var2_result [of RTree_init_var2 segs] obtain t2 where
    t2: "insert_all_var2 RTree_init_var2 segs = (Inr (), t2)"
        "segs \<noteq> [] \<longrightarrow> segments_var2 t2 = sort_key fst (segments_var2 RTree_init_var2 @ segs)"
        "segs = [] \<longrightarrow> t2 = RTree_init_var2"
    by blast
  have st: "segments_var2 t2 = sort_key fst segs"
    using t2(2,3) by (cases "segs = []") (simp_all add: RTree_init_var2_def)
  have s1: "segments (insert_all RTree_init segs) = segs"
    by (simp add: insert_all_store RTree_init_def)
  have "mset (segments_var2 t2) = mset (segments (insert_all RTree_init segs))"
    by (simp add: st s1)
  moreover have "RTree_contains_var2 t2 q = RTree_contains (insert_all RTree_init segs) q"
    unfolding RTree_contains_var2_def RTree_contains_def st s1
    by (rule contains_loop_set) simp
  ultimately show ?thesis using t2(1) by blast
qed

end
